theory Spec2Isabelle
  imports Main
begin

section \<open>Calendar time\<close>

text \<open>
  The program computes with Go's \<open>time.Time\<close>. A value is modelled in civil form: the
  year, month and day of the proleptic Gregorian calendar and the seconds elapsed since
  midnight. Every value the program builds comes out of \<open>time.Date\<close> or \<open>time.Parse\<close>,
  which normalise their arguments, so two values denote the same instant exactly when
  their fields agree, and the comparison of instants is the lexicographic comparison of
  the fields. Nanoseconds and locations are left out: the program only builds UTC
  midnights and shifts them by whole seconds.
\<close>

record Time =
  Year :: int
  Month :: int
  Day :: int
  Secs :: int

definition isLeap :: "int \<Rightarrow> bool" where
  "isLeap year \<longleftrightarrow> year mod 4 = 0 \<and> (year mod 100 \<noteq> 0 \<or> year mod 400 = 0)"

definition daysIn :: "int \<Rightarrow> int \<Rightarrow> int" where
  "daysIn m year =
     (if m = 2 then (if isLeap year then 29 else 28)
      else if m = 4 \<or> m = 6 \<or> m = 9 \<or> m = 11 then 30
      else 31)"

text \<open>
  \<open>normDay\<close> carries a day number that lies outside its month into the neighbouring
  months, one month at a time, as \<open>time.Date\<close> does for day 0 or for February 29 of a
  common year.
\<close>

function normDay :: "int \<Rightarrow> int \<Rightarrow> int \<Rightarrow> int \<times> int \<times> int" where
  "normDay y m d =
     (if d < 1 then
        (if m \<le> 1 then normDay (y - 1) 12 (d + daysIn 12 (y - 1))
         else normDay y (m - 1) (d + daysIn (m - 1) y))
      else if daysIn m y < d then
        (if 12 \<le> m then normDay (y + 1) 1 (d - daysIn m y)
         else normDay y (m + 1) (d - daysIn m y))
      else (y, m, d))"
  by pat_completeness auto
termination
  by (relation "measures [\<lambda>(y, m, d). if d < 1 then 1 else 0,
                          \<lambda>(y, m, d). if d < 1 then nat (1 - d) else nat d]")
     (auto simp: daysIn_def)

declare normDay.simps [simp del]

text \<open>\<open>time.Date(year, month, day, hour, min, sec, 0, time.UTC)\<close>.\<close>

definition Date :: "int \<Rightarrow> int \<Rightarrow> int \<Rightarrow> int \<Rightarrow> int \<Rightarrow> int \<Rightarrow> Time" where
  "Date year month day hour minute sec =
     (let total = hour * 3600 + minute * 60 + sec;
          y = year + (month - 1) div 12;
          m = (month - 1) mod 12 + 1;
          r = normDay y m (day + total div 86400)
      in \<lparr>Year = fst r, Month = fst (snd r), Day = snd (snd r), Secs = total mod 86400\<rparr>)"

text \<open>\<open>t.Add(d)\<close> for a duration of \<open>d\<close> seconds, and \<open>t.AddDate(years, months, days)\<close>.\<close>

definition Add :: "Time \<Rightarrow> int \<Rightarrow> Time" where
  "Add t d = Date (Year t) (Month t) (Day t) 0 0 (Secs t + d)"

definition AddDate :: "Time \<Rightarrow> int \<Rightarrow> int \<Rightarrow> int \<Rightarrow> Time" where
  "AddDate t years months days =
     Date (Year t + years) (Month t + months) (Day t + days) 0 0 (Secs t)"

definition Before :: "Time \<Rightarrow> Time \<Rightarrow> bool" where
  "Before t u \<longleftrightarrow>
     Year t < Year u \<or> (Year t = Year u \<and>
       (Month t < Month u \<or> (Month t = Month u \<and>
         (Day t < Day u \<or> (Day t = Day u \<and> Secs t < Secs u)))))"

definition After :: "Time \<Rightarrow> Time \<Rightarrow> bool" where
  "After t u \<longleftrightarrow> Before u t"

definition Equal :: "Time \<Rightarrow> Time \<Rightarrow> bool" where
  "Equal t u \<longleftrightarrow> Year t = Year u \<and> Month t = Month u \<and> Day t = Day u \<and> Secs t = Secs u"

text \<open>The values \<open>time.Date\<close> and \<open>time.Parse\<close> return: a day of the calendar and a time of day.\<close>

definition valid :: "Time \<Rightarrow> bool" where
  "valid t \<longleftrightarrow> 1 \<le> Month t \<and> Month t \<le> 12 \<and> 1 \<le> Day t \<and> Day t \<le> daysIn (Month t) (Year t)
     \<and> 0 \<le> Secs t \<and> Secs t < 86400"

section \<open>Renewal dates\<close>

text \<open>\<open>addMonth\<close> of \<open>internal/service/subscription.go\<close>.\<close>

definition addMonth :: "Time \<Rightarrow> Time" where
  "addMonth t =
     (let year = Year t; month = Month t + 1; day = Day t;
          year' = (if month > 12 then year + 1 else year);
          month' = (if month > 12 then 1 else month);
          lastDayOfMonth = Day (Date year' (month' + 1) 0 0 0 0);
          day' = (if day > lastDayOfMonth then lastDayOfMonth else day)
      in Date year' month' day' 0 0 0)"

lemma daysIn_ge: "28 \<le> daysIn m y" by (simp add: daysIn_def)
lemma daysIn_le: "daysIn m y \<le> 31" by (simp add: daysIn_def)

lemma normDay_id: "1 \<le> d \<Longrightarrow> d \<le> daysIn m y \<Longrightarrow> normDay y m d = (y, m, d)"
  by (subst normDay.simps) simp

lemma normDay_valid:
  "1 \<le> m \<Longrightarrow> m \<le> 12 \<Longrightarrow> normDay y m d = (y', m', d') \<Longrightarrow>
     1 \<le> m' \<and> m' \<le> 12 \<and> 1 \<le> d' \<and> d' \<le> daysIn m' y'"
proof (induction y m d rule: normDay.induct)
  case (1 y m d)
  note eq = normDay.simps[of y m d]
  consider (a) "d < 1" "m \<le> 1" | (b) "d < 1" "\<not> m \<le> 1"
    | (c) "\<not> d < 1" "daysIn m y < d" "12 \<le> m"
    | (e) "\<not> d < 1" "daysIn m y < d" "\<not> 12 \<le> m"
    | (f) "\<not> d < 1" "\<not> daysIn m y < d"
    by blast
  then show ?case
  proof cases
    case a
    with eq "1.prems" have "normDay (y - 1) 12 (d + daysIn 12 (y - 1)) = (y', m', d')" by simp
    with "1.IH"(1)[OF a] show ?thesis by simp
  next
    case b
    with eq "1.prems" have "normDay y (m - 1) (d + daysIn (m - 1) y) = (y', m', d')" by simp
    with "1.IH"(2)[OF b] "1.prems" b show ?thesis by simp
  next
    case c
    with eq "1.prems" have "normDay (y + 1) 1 (d - daysIn m y) = (y', m', d')" by simp
    with "1.IH"(3)[OF c] show ?thesis by simp
  next
    case e
    with eq "1.prems" have "normDay y (m + 1) (d - daysIn m y) = (y', m', d')" by simp
    with "1.IH"(4)[OF e] "1.prems" e show ?thesis by simp
  next
    case f
    with eq "1.prems" show ?thesis by simp
  qed
qed

lemma valid_Date: "valid (Date y m d h mi s)"
proof -
  obtain y' m' d' where r: "normDay (y + (m - 1) div 12) ((m - 1) mod 12 + 1)
      (d + (h * 3600 + mi * 60 + s) div 86400) = (y', m', d')"
    by (metis prod_cases3)
  have "1 \<le> (m - 1) mod 12 + 1" "(m - 1) mod 12 + 1 \<le> 12" by simp_all
  from normDay_valid[OF this r] show ?thesis
    by (simp add: Date_def valid_def Let_def r)
qed

lemma normDay_zero:
  "1 \<le> m \<Longrightarrow> m \<le> 12 \<Longrightarrow> normDay y m 0 = (if m = 1 then (y - 1, 12, 31) else (y, m - 1, daysIn (m - 1) y))"
  using daysIn_ge[of "m - 1" y]
  by (subst normDay.simps) (auto simp: normDay_id daysIn_def)

lemma Date_id: "1 \<le> m \<Longrightarrow> m \<le> 12 \<Longrightarrow> 1 \<le> d \<Longrightarrow> d \<le> daysIn m y \<Longrightarrow>
  Date y m d 0 0 0 = \<lparr>Year = y, Month = m, Day = d, Secs = 0\<rparr>"
  by (simp add: Date_def normDay_id)

lemma Date_lastDay: "2 \<le> m \<Longrightarrow> m \<le> 13 \<Longrightarrow> Day (Date y m 0 0 0 0) = daysIn (m - 1) y"
  by (cases "m = 13") (simp_all add: Date_def normDay_zero daysIn_def)

lemma addMonth_valid_eq:
  assumes "valid t"
  shows "addMonth t = \<lparr>Year = (if Month t = 12 then Year t + 1 else Year t),
                       Month = (if Month t = 12 then 1 else Month t + 1),
                       Day = min (Day t) (daysIn (if Month t = 12 then 1 else Month t + 1)
                                                 (if Month t = 12 then Year t + 1 else Year t)),
                       Secs = 0\<rparr>"
proof -
  define y' where "y' = (if Month t = 12 then Year t + 1 else Year t)"
  define m' where "m' = (if Month t = 12 then 1 else Month t + 1)"
  have m: "1 \<le> m'" "m' \<le> 12"
    using assms by (auto simp: m'_def valid_def)
  have last: "Day (Date y' (m' + 1) 0 0 0 0) = daysIn m' y'"
    using Date_lastDay[of "m' + 1" y'] m by simp
  have d: "1 \<le> min (Day t) (daysIn m' y')" "min (Day t) (daysIn m' y') \<le> daysIn m' y'"
    using assms daysIn_ge[of m' y'] by (auto simp: valid_def)
  have "addMonth t = Date y' m' (min (Day t) (daysIn m' y')) 0 0 0"
    using assms last unfolding addMonth_def Let_def y'_def m'_def
    by (auto simp: valid_def min_def)
  also have "\<dots> = \<lparr>Year = y', Month = m', Day = min (Day t) (daysIn m' y'), Secs = 0\<rparr>"
    using m d by (rule Date_id)
  finally show ?thesis by (simp add: y'_def m'_def)
qed

lemma valid_addMonth: "valid (addMonth t)"
  by (simp add: addMonth_def Let_def valid_Date)

lemma AddDate_year_valid:
  assumes "valid t"
  shows "AddDate t 1 0 0 =
     (if Month t = 2 \<and> Day t = 29 \<and> \<not> isLeap (Year t + 1)
      then \<lparr>Year = Year t + 1, Month = 3, Day = 1, Secs = Secs t\<rparr>
      else \<lparr>Year = Year t + 1, Month = Month t, Day = Day t, Secs = Secs t\<rparr>)"
proof (cases "Day t \<le> daysIn (Month t) (Year t + 1)")
  case True
  with assms have "normDay (Year t + 1) (Month t) (Day t) = (Year t + 1, Month t, Day t)"
    by (simp add: normDay_id valid_def)
  moreover from True have "\<not> (Month t = 2 \<and> Day t = 29 \<and> \<not> isLeap (Year t + 1))"
    by (auto simp: daysIn_def split: if_splits)
  ultimately show ?thesis using assms
    by (simp add: AddDate_def Date_def valid_def Let_def)
next
  case False
  with assms have f: "Month t = 2" "Day t = 29" "\<not> isLeap (Year t + 1)"
    by (auto simp: valid_def daysIn_def split: if_splits)
  have "normDay (Year t + 1) 2 29 = normDay (Year t + 1) 3 1"
    using f by (subst normDay.simps) (simp add: daysIn_def)
  also have "\<dots> = (Year t + 1, 3, 1)"
    by (simp add: normDay_id daysIn_def)
  finally show ?thesis using assms f
    by (simp add: AddDate_def Date_def valid_def Let_def)
qed

lemma valid_AddDate: "valid (AddDate t a b c)"
  by (simp add: AddDate_def valid_Date)

text \<open>
  The two loops of \<open>CalculateNextRenewalDate\<close>. Each pass moves the date to a later
  month (or year), so the loops end: the number of months (years) left up to the
  reference time decreases.
\<close>

function advanceMonthly :: "Time \<Rightarrow> Time \<Rightarrow> Time" where
  "advanceMonthly newDate referenceTime =
     (if Before newDate referenceTime then advanceMonthly (addMonth newDate) referenceTime
      else newDate)"
  by pat_completeness auto
termination
proof (relation "measures [\<lambda>(t, r). if valid t then 0 else 1,
         \<lambda>(t, r). nat (12 * Year r + max (Month r) 0 + 1 - (12 * Year t + Month t))]",
       goal_cases)
  case 1
  show ?case by simp
next
  case (2 t r)
  show ?case
  proof (cases "valid t")
    case False
    then show ?thesis by (simp add: valid_addMonth)
  next
    case True
    from True 2 have "12 * Year t + Month t \<le> 12 * Year r + max (Month r) 0"
      by (auto simp: Before_def valid_def)
    moreover have "12 * Year (addMonth t) + Month (addMonth t) = 12 * Year t + Month t + 1"
      by (simp add: addMonth_valid_eq[OF True])
    ultimately show ?thesis using True by (simp add: valid_addMonth)
  qed
qed

function advanceYearly :: "Time \<Rightarrow> Time \<Rightarrow> Time" where
  "advanceYearly newDate referenceTime =
     (if Before newDate referenceTime then advanceYearly (AddDate newDate 1 0 0) referenceTime
      else newDate)"
  by pat_completeness auto
termination
proof (relation "measures [\<lambda>(t, r). if valid t then 0 else 1,
         \<lambda>(t, r). nat (Year r + 1 - Year t)]", goal_cases)
  case 1
  show ?case by simp
next
  case (2 t r)
  show ?case
  proof (cases "valid t")
    case False
    then show ?thesis by (simp add: valid_AddDate)
  next
    case True
    from 2 have "Year t \<le> Year r" by (auto simp: Before_def)
    moreover have "Year (AddDate t 1 0 0) = Year t + 1"
      by (simp add: AddDate_year_valid[OF True])
    ultimately show ?thesis using True by (simp add: valid_AddDate)
  qed
qed


declare advanceMonthly.simps [simp del]
declare advanceYearly.simps [simp del]

definition CalculateNextRenewalDate :: "Time \<Rightarrow> string \<Rightarrow> Time \<Rightarrow> Time" where
  "CalculateNextRenewalDate currentRenewal billingCycle referenceTime =
     (if billingCycle = ''monthly'' then advanceMonthly currentRenewal referenceTime
      else advanceYearly currentRenewal referenceTime)"


section \<open>Repeated month steps\<close>

lemma valid_funpow_addMonth: "valid t \<Longrightarrow> valid ((addMonth ^^ n) t)"
  by (cases n) (simp_all add: valid_addMonth)

lemma Day_addMonth:
  "valid t \<Longrightarrow> Day (addMonth t) = min (Day t) (daysIn (Month (addMonth t)) (Year (addMonth t)))"
  by (simp add: addMonth_valid_eq)

lemma Day_addMonth_le: "valid t \<Longrightarrow> Day (addMonth t) \<le> Day t"
  by (simp add: addMonth_valid_eq)

lemma Day_funpow_step: "valid t \<Longrightarrow> Day ((addMonth ^^ Suc n) t) \<le> Day ((addMonth ^^ n) t)"
  using Day_addMonth_le[OF valid_funpow_addMonth, of t n] by simp

lemma Day_funpow_antimono:
  "valid t \<Longrightarrow> k \<le> n \<Longrightarrow> Day ((addMonth ^^ n) t) \<le> Day ((addMonth ^^ k) t)"
proof (induction n)
  case 0
  then show ?case by simp
next
  case (Suc n)
  show ?case
  proof (cases "k = Suc n")
    case True
    then show ?thesis by simp
  next
    case False
    with Suc have "Day ((addMonth ^^ n) t) \<le> Day ((addMonth ^^ k) t)" by simp
    with Day_funpow_step[OF Suc.prems(1), of n] show ?thesis by linarith
  qed
qed

lemma idx_unique:
  fixes y y' m m' :: int
  assumes "12 * y + m = 12 * y' + m'" "1 \<le> m" "m \<le> 12" "1 \<le> m'" "m' \<le> 12"
  shows "y = y' \<and> m = m'"
proof -
  from assms have "y = y'" by linarith
  with assms show ?thesis by simp
qed

lemma idx_addMonth:
  "valid t \<Longrightarrow> 12 * Year (addMonth t) + Month (addMonth t) = 12 * Year t + Month t + 1"
  by (simp add: addMonth_valid_eq)

lemma idx_funpow:
  "valid t \<Longrightarrow> 12 * Year ((addMonth ^^ n) t) + Month ((addMonth ^^ n) t) = 12 * Year t + Month t + int n"
proof (induction n)
  case 0
  then show ?case by simp
next
  case (Suc n)
  with idx_addMonth[OF valid_funpow_addMonth[OF Suc.prems, of n]] show ?case by simp
qed

lemma Secs_funpow: "0 < n \<Longrightarrow> Secs ((addMonth ^^ n) t) = 0"
  by (cases n) (simp_all add: addMonth_def Let_def Date_def)

text \<open>The February that twelve steps from t pass through.\<close>

lemma feb_arith:
  fixes y y' m k :: int
  assumes "12 * y' + 2 = 12 * y + m + k" "1 \<le> m" "m \<le> 12" "1 \<le> k" "k \<le> 12"
  shows "y' = (if m = 1 then y else y + 1)"
proof -
  from assms have "y' = y \<or> y' = y + 1" by linarith
  then show ?thesis
  proof
    assume "y' = y"
    with assms show ?thesis by simp
  next
    assume "y' = y + 1"
    with assms show ?thesis by simp
  qed
qed

lemma feb_year:
  assumes "valid t" "1 \<le> k" "k \<le> 12" "Month ((addMonth ^^ k) t) = 2"
  shows "Year ((addMonth ^^ k) t) = (if Month t = 1 then Year t else Year t + 1)"
proof -
  from idx_funpow[OF assms(1), of k] assms(4)
  have "12 * Year ((addMonth ^^ k) t) + 2 = 12 * Year t + Month t + int k" by simp
  moreover from assms(1) have "1 \<le> Month t" "Month t \<le> 12" by (simp_all add: valid_def)
  moreover from assms(2,3) have "1 \<le> int k" "int k \<le> 12" by simp_all
  ultimately show ?thesis by (rule feb_arith)
qed

lemma Day_funpow_lower:
  assumes "valid t" "n \<le> 12"
  shows "min (Day t) (daysIn 2 (if Month t = 1 then Year t else Year t + 1)) \<le> Day ((addMonth ^^ n) t)"
  using assms(2)
proof (induction n)
  case 0
  then show ?case by simp
next
  case (Suc n)
  let ?F = "daysIn 2 (if Month t = 1 then Year t else Year t + 1)"
  let ?u = "(addMonth ^^ n) t"
  have v: "valid ?u" by (rule valid_funpow_addMonth[OF assms(1)])
  have d: "Day (addMonth ?u) = min (Day ?u) (daysIn (Month (addMonth ?u)) (Year (addMonth ?u)))"
    by (rule Day_addMonth[OF v])
  have "?F \<le> daysIn (Month (addMonth ?u)) (Year (addMonth ?u))"
  proof (cases "Month (addMonth ?u) = 2")
    case True
    with feb_year[OF assms(1), of "Suc n"] Suc.prems show ?thesis by simp
  next
    case False
    then show ?thesis by (simp add: daysIn_def)
  qed
  with d Suc show ?case by simp
qed

lemma Day_funpow_upper:
  assumes "valid t"
  shows "Day ((addMonth ^^ 12) t) \<le> daysIn 2 (if Month t = 1 then Year t else Year t + 1)"
proof -
  define k where "k = (if Month t = 1 then 1 else nat (14 - Month t))"
  from assms have m: "1 \<le> Month t" "Month t \<le> 12" by (simp_all add: valid_def)
  then have k: "1 \<le> k" "k \<le> 12" by (auto simp: k_def)
  let ?u = "(addMonth ^^ k) t"
  have v: "valid ?u" by (rule valid_funpow_addMonth[OF assms])
  then have mu: "1 \<le> Month ?u" "Month ?u \<le> 12" by (simp_all add: valid_def)
  have "12 * Year ?u + Month ?u = 12 * Year t + Month t + int k" by (rule idx_funpow[OF assms])
  moreover have "12 * Year t + Month t + int k = 12 * (if Month t = 1 then Year t else Year t + 1) + 2"
    using m by (simp add: k_def)
  ultimately have feb: "Month ?u = 2"
    using idx_unique[of "Year ?u" "Month ?u" "if Month t = 1 then Year t else Year t + 1" 2] mu
    by simp
  from feb_year[OF assms k feb] have y: "Year ?u = (if Month t = 1 then Year t else Year t + 1)" .
  from k obtain j where j: "k = Suc j" by (cases k) auto
  have "Day ?u = min (Day ((addMonth ^^ j) t)) (daysIn (Month ?u) (Year ?u))"
    using Day_addMonth[OF valid_funpow_addMonth[OF assms, of j]] by (simp add: j)
  then have "Day ?u \<le> daysIn 2 (if Month t = 1 then Year t else Year t + 1)"
    using feb y by simp
  with Day_funpow_antimono[OF assms k(2)] show ?thesis by linarith
qed

lemma funpow12_addMonth:
  assumes "valid t"
  shows "(addMonth ^^ 12) t = \<lparr>Year = Year t + 1, Month = Month t,
      Day = min (Day t) (daysIn 2 (if Month t = 1 then Year t else Year t + 1)), Secs = 0\<rparr>"
proof -
  let ?u = "(addMonth ^^ 12) t"
  have v: "valid ?u" by (rule valid_funpow_addMonth[OF assms])
  have "12 * Year ?u + Month ?u = 12 * Year t + Month t + 12"
    using idx_funpow[OF assms, of 12] by simp
  then have "12 * Year ?u + Month ?u = 12 * (Year t + 1) + Month t" by simp
  from idx_unique[OF this] v assms have ym: "Year ?u = Year t + 1" "Month ?u = Month t"
    by (simp_all add: valid_def)
  have "Day ?u \<le> Day t" using Day_funpow_antimono[OF assms, of 0 12] by simp
  with Day_funpow_upper[OF assms] Day_funpow_lower[OF assms, of 12]
  have d: "Day ?u = min (Day t) (daysIn 2 (if Month t = 1 then Year t else Year t + 1))"
    by simp
  have s: "Secs ?u = 0" by (rule Secs_funpow) simp
  show ?thesis using ym d s by (cases ?u) simp
qed

section \<open>Claims\<close>

text \<open>
  C3. The yearly loop of \<open>CalculateNextRenewalDate\<close> adds one year with
  \<open>AddDate(1, 0, 0)\<close>. The claim wants February 29 clamped to February 28 when the
  next year is a common year. Here the code is evaluated on the stored date 2024-02-29
  with the reference date 2024-03-01: the result is 2025-03-01, not 2025-02-28.
\<close>

theorem C3_yearly_feb29_gives_march_1:
  "CalculateNextRenewalDate \<lparr>Year = 2024, Month = 2, Day = 29, Secs = 0\<rparr> ''yearly''
       \<lparr>Year = 2024, Month = 3, Day = 1, Secs = 0\<rparr>
     = \<lparr>Year = 2025, Month = 3, Day = 1, Secs = 0\<rparr>"
  by (simp add: CalculateNextRenewalDate_def advanceYearly.simps Before_def
        AddDate_year_valid valid_def daysIn_def isLeap_def)

text \<open>
  C9. A monthly subscription stored at 2026-01-31, advanced with the reference date
  2026-02-15, moves to 2026-02-28: the day is clamped to the last day of February 2026.
\<close>

theorem C9_jan31_advances_to_feb28:
  "CalculateNextRenewalDate \<lparr>Year = 2026, Month = 1, Day = 31, Secs = 0\<rparr> ''monthly''
       \<lparr>Year = 2026, Month = 2, Day = 15, Secs = 0\<rparr>
     = \<lparr>Year = 2026, Month = 2, Day = 28, Secs = 0\<rparr>"
  by (simp add: CalculateNextRenewalDate_def advanceMonthly.simps Before_def
        addMonth_valid_eq valid_def daysIn_def isLeap_def)

text \<open>
  C10. For every date, the day of \<open>addMonth\<close>'s result is the smaller of the source day
  and the last day of the target month (the next month, January of the next year after
  December), so it never exceeds the source day. Under repeated application the day never
  increases, and once it has dropped below the original day it stays below it.
\<close>

theorem C10_addMonth_day_never_grows:
  assumes "valid t"
  shows "Year (addMonth t) = (if Month t = 12 then Year t + 1 else Year t)
       \<and> Month (addMonth t) = (if Month t = 12 then 1 else Month t + 1)
       \<and> Day (addMonth t) = min (Day t) (daysIn (Month (addMonth t)) (Year (addMonth t)))
       \<and> Day (addMonth t) \<le> Day t
       \<and> (\<forall>n. Day ((addMonth ^^ Suc n) t) \<le> Day ((addMonth ^^ n) t))
       \<and> (\<forall>k n. k \<le> n \<and> Day ((addMonth ^^ k) t) < Day t \<longrightarrow> Day ((addMonth ^^ n) t) < Day t)"
proof (intro conjI allI impI)
  show "Year (addMonth t) = (if Month t = 12 then Year t + 1 else Year t)"
    by (simp add: addMonth_valid_eq[OF assms])
  show "Month (addMonth t) = (if Month t = 12 then 1 else Month t + 1)"
    by (simp add: addMonth_valid_eq[OF assms])
  show "Day (addMonth t) = min (Day t) (daysIn (Month (addMonth t)) (Year (addMonth t)))"
    by (rule Day_addMonth[OF assms])
  show "Day (addMonth t) \<le> Day t"
    by (rule Day_addMonth_le[OF assms])
  show "Day ((addMonth ^^ Suc n) t) \<le> Day ((addMonth ^^ n) t)" for n
    by (rule Day_funpow_step[OF assms])
  show "Day ((addMonth ^^ n) t) < Day t"
    if "k \<le> n \<and> Day ((addMonth ^^ k) t) < Day t" for k n
    using Day_funpow_antimono[OF assms, of k n] that by linarith
qed

theorem C10_witness:
  "valid \<lparr>Year = 2026, Month = 1, Day = 31, Secs = 0\<rparr>
   \<and> Day (addMonth \<lparr>Year = 2026, Month = 1, Day = 31, Secs = 0\<rparr>) = 28
   \<and> Day ((addMonth ^^ 2) \<lparr>Year = 2026, Month = 1, Day = 31, Secs = 0\<rparr>) < 31"
proof -
  let ?t = "\<lparr>Year = 2026, Month = 1, Day = 31, Secs = 0\<rparr>"
  have v: "valid ?t" by (simp add: valid_def daysIn_def)
  have m: "Year (addMonth ?t) = 2026" "Month (addMonth ?t) = 2" "Day (addMonth ?t) = 28"
    using C10_addMonth_day_never_grows[OF v] by (simp_all add: daysIn_def isLeap_def)
  have "Day ((addMonth ^^ 1) ?t) < Day ?t" using m by simp
  then have "Day ((addMonth ^^ 2) ?t) < Day ?t"
    using C10_addMonth_day_never_grows[OF v] by (metis one_le_numeral)
  then show ?thesis using v m by simp
qed

text \<open>
  C2, as the code has it. For a calendar date (a midnight) \<open>t\<close>, twelve \<open>addMonth\<close> steps
  give the same date as \<open>AddDate(1, 0, 0)\<close> exactly when the day of \<open>t\<close> is no later
  than the last day of the February the twelve steps pass through. So the two agree for
  every day up to the 28th, and they differ at February 29, where the month steps end on
  February 28 and \<open>AddDate\<close> on March 1.
\<close>

theorem C2_twelve_months_vs_one_year:
  assumes "valid t" "Secs t = 0"
  shows "(((addMonth ^^ 12) t = AddDate t 1 0 0)
           \<longleftrightarrow> Day t \<le> daysIn 2 (if Month t = 1 then Year t else Year t + 1))
       \<and> (Day t \<le> 28 \<longrightarrow> (addMonth ^^ 12) t = AddDate t 1 0 0)
       \<and> (Month t = 2 \<and> Day t = 29 \<longrightarrow> (addMonth ^^ 12) t \<noteq> AddDate t 1 0 0)"
proof -
  let ?F = "daysIn 2 (if Month t = 1 then Year t else Year t + 1)"
  have main: "((addMonth ^^ 12) t = AddDate t 1 0 0) \<longleftrightarrow> Day t \<le> ?F"
  proof (cases "Month t = 2 \<and> Day t = 29")
    case True
    with assms have "isLeap (Year t)" by (auto simp: valid_def daysIn_def split: if_splits)
    then have "Year t mod 4 = 0" by (simp add: isLeap_def)
    then have "(Year t + 1) mod 4 \<noteq> 0" by presburger
    then have "\<not> isLeap (Year t + 1)" by (simp add: isLeap_def)
    with True show ?thesis using assms
      by (simp add: funpow12_addMonth AddDate_year_valid daysIn_def)
  next
    case False
    then show ?thesis using assms
      by (auto simp: funpow12_addMonth AddDate_year_valid min_def)
  qed
  have small: "(addMonth ^^ 12) t = AddDate t 1 0 0" if "Day t \<le> 28"
    using main that daysIn_ge[of 2 "if Month t = 1 then Year t else Year t + 1"] by linarith
  have feb29: "(addMonth ^^ 12) t \<noteq> AddDate t 1 0 0" if f: "Month t = 2 \<and> Day t = 29"
  proof -
    from f assms have "isLeap (Year t)" by (auto simp: valid_def daysIn_def split: if_splits)
    then have "Year t mod 4 = 0" by (simp add: isLeap_def)
    then have "(Year t + 1) mod 4 \<noteq> 0" by presburger
    then have "\<not> isLeap (Year t + 1)" by (simp add: isLeap_def)
    with f have "\<not> Day t \<le> ?F" by (simp add: daysIn_def)
    with main show ?thesis by simp
  qed
  from main small feb29 show ?thesis by blast
qed

theorem C2_witness:
  "valid \<lparr>Year = 2024, Month = 2, Day = 29, Secs = 0\<rparr>
   \<and> Secs \<lparr>Year = 2024, Month = 2, Day = 29, Secs = 0\<rparr> = 0
   \<and> (addMonth ^^ 12) \<lparr>Year = 2024, Month = 2, Day = 29, Secs = 0\<rparr>
       \<noteq> AddDate \<lparr>Year = 2024, Month = 2, Day = 29, Secs = 0\<rparr> 1 0 0
   \<and> valid \<lparr>Year = 2026, Month = 3, Day = 15, Secs = 0\<rparr>
   \<and> (addMonth ^^ 12) \<lparr>Year = 2026, Month = 3, Day = 15, Secs = 0\<rparr>
       = AddDate \<lparr>Year = 2026, Month = 3, Day = 15, Secs = 0\<rparr> 1 0 0"
proof -
  have v1: "valid \<lparr>Year = 2024, Month = 2, Day = 29, Secs = 0\<rparr>"
    by (simp add: valid_def daysIn_def isLeap_def)
  have v2: "valid \<lparr>Year = 2026, Month = 3, Day = 15, Secs = 0\<rparr>"
    by (simp add: valid_def daysIn_def)
  show ?thesis
    using v1 v2 C2_twelve_months_vs_one_year[OF v1] C2_twelve_months_vs_one_year[OF v2]
    by (simp add: daysIn_def isLeap_def)
qed

text \<open>
  C2 as the claim states it fails on 2026-01-31, which is not a February 29: the day is
  clamped to 28 in February 2026 and stays there, so twelve month steps end on
  2027-01-28, while \<open>AddDate(1, 0, 0)\<close> gives 2027-01-31.
\<close>

theorem C2_counterexample:
  "valid \<lparr>Year = 2026, Month = 1, Day = 31, Secs = 0\<rparr>
   \<and> \<not> (Month \<lparr>Year = 2026, Month = 1, Day = 31, Secs = 0\<rparr> = 2
          \<and> Day \<lparr>Year = 2026, Month = 1, Day = 31, Secs = 0\<rparr> = 29)
   \<and> (addMonth ^^ 12) \<lparr>Year = 2026, Month = 1, Day = 31, Secs = 0\<rparr>
       = \<lparr>Year = 2027, Month = 1, Day = 28, Secs = 0\<rparr>
   \<and> AddDate \<lparr>Year = 2026, Month = 1, Day = 31, Secs = 0\<rparr> 1 0 0
       = \<lparr>Year = 2027, Month = 1, Day = 31, Secs = 0\<rparr>
   \<and> (addMonth ^^ 12) \<lparr>Year = 2026, Month = 1, Day = 31, Secs = 0\<rparr>
       \<noteq> AddDate \<lparr>Year = 2026, Month = 1, Day = 31, Secs = 0\<rparr> 1 0 0"
proof -
  have v: "valid \<lparr>Year = 2026, Month = 1, Day = 31, Secs = 0\<rparr>"
    by (simp add: valid_def daysIn_def)
  show ?thesis
    using v by (simp add: funpow12_addMonth[OF v] AddDate_year_valid[OF v] daysIn_def isLeap_def)
qed

end
